theory Spec2Isabelle
  imports Main "HOL-Library.Word" "HOL-Library.Sublist"
begin

section \<open>The JavaScript runtime, as far as the streaming decoders use it\<close>

text \<open>
  The repository holds three copies of the decode loop that reads an OpenAI-style
  streamed chat completion:
  \<^item> \<open>OllamaService.chat\<close> in \<open>src/ollamaService.ts\<close>;
  \<^item> \<open>OllamaService.chat\<close> in the second copy of that file (the one whose comment reads
    \<open>fix: use '\n' not '\\n'\<close>), called \<open>OllamaService_v2\<close> below;
  \<^item> \<open>OllamaLanguageModelProvider.chat\<close> in \<open>ollamaLanguageModelProvider.ts\<close>.
  Each registers a \<open>data\<close>, an \<open>end\<close> and an \<open>error\<close> listener on the response stream
  and settles a promise from inside them.  The listeners are modelled as functions on the
  variables they close over; the runtime functions they call are modelled first.
\<close>

subsection \<open>Strings\<close>

text \<open>
  A \<open>Buffer\<close> is a sequence of bytes (\<^typ>\<open>char\<close> is the 8-bit type of HOL); a JavaScript
  string is a sequence of UTF-16 code units.
\<close>

type_synonym bytes = "char list"
type_synonym unit16 = "16 word"
type_synonym ustring = "unit16 list"

text \<open>String literals of the source are ASCII: one code unit for each character.\<close>

definition ascii :: "string \<Rightarrow> ustring" where
  "ascii s = map (\<lambda>c. of_nat (of_char c)) s"

text \<open>
  \<open>chunk.toString()\<close> decodes the bytes of one chunk as UTF-8, on its own: a byte that
  cannot start or continue a sequence, and a sequence cut short by the end of the chunk,
  become U+FFFD (one for each maximal ill-formed prefix).  A code point above U+FFFF is
  two code units.
\<close>

definition continuation :: "nat \<Rightarrow> nat \<Rightarrow> char \<Rightarrow> bool" where
  "continuation lo hi c \<longleftrightarrow> lo \<le> (of_char c :: nat) \<and> (of_char c :: nat) \<le> hi"

definition codeUnits :: "nat \<Rightarrow> ustring" where
  "codeUnits cp =
     (if cp < 0x10000 then [of_nat cp]
      else [of_nat (0xD800 + (cp - 0x10000) div 0x400),
            of_nat (0xDC00 + (cp - 0x10000) mod 0x400)])"

definition bits :: "char \<Rightarrow> nat" where
  "bits c = (of_char c :: nat) mod 0x40"

fun Buffer_toString :: "bytes \<Rightarrow> ustring" where
  "Buffer_toString [] = []"
| "Buffer_toString (b # bs) =
     (let n = (of_char b :: nat) in
      if n < 0x80 then of_nat n # Buffer_toString bs
      else if 0xC2 \<le> n \<and> n \<le> 0xDF then
        (case bs of
           [] \<Rightarrow> [0xFFFD]
         | c # cs \<Rightarrow>
             if continuation 0x80 0xBF c
             then codeUnits ((n - 0xC0) * 0x40 + bits c) @ Buffer_toString cs
             else 0xFFFD # Buffer_toString bs)
      else if 0xE0 \<le> n \<and> n \<le> 0xEF then
        (case bs of
           [] \<Rightarrow> [0xFFFD]
         | c # cs \<Rightarrow>
             if continuation (if n = 0xE0 then 0xA0 else 0x80) (if n = 0xED then 0x9F else 0xBF) c
             then (case cs of
                     [] \<Rightarrow> [0xFFFD]
                   | d # ds \<Rightarrow>
                       if continuation 0x80 0xBF d
                       then codeUnits (((n - 0xE0) * 0x40 + bits c) * 0x40 + bits d)
                              @ Buffer_toString ds
                       else 0xFFFD # Buffer_toString cs)
             else 0xFFFD # Buffer_toString bs)
      else if 0xF0 \<le> n \<and> n \<le> 0xF4 then
        (case bs of
           [] \<Rightarrow> [0xFFFD]
         | c # cs \<Rightarrow>
             if continuation (if n = 0xF0 then 0x90 else 0x80) (if n = 0xF4 then 0x8F else 0xBF) c
             then (case cs of
                     [] \<Rightarrow> [0xFFFD]
                   | d # ds \<Rightarrow>
                       if continuation 0x80 0xBF d
                       then (case ds of
                               [] \<Rightarrow> [0xFFFD]
                             | e # es \<Rightarrow>
                                 if continuation 0x80 0xBF e
                                 then codeUnits ((((n - 0xF0) * 0x40 + bits c) * 0x40 + bits d)
                                                   * 0x40 + bits e)
                                        @ Buffer_toString es
                                 else 0xFFFD # Buffer_toString ds)
                       else 0xFFFD # Buffer_toString cs)
             else 0xFFFD # Buffer_toString bs)
      else 0xFFFD # Buffer_toString bs)"

text \<open>
  \<open>String.prototype.trim\<close> removes the white space and line terminators of ECMAScript
  from both ends.
\<close>

definition isWhiteSpace :: "unit16 \<Rightarrow> bool" where
  "isWhiteSpace u \<longleftrightarrow>
     u \<in> {0x9, 0xA, 0xB, 0xC, 0xD, 0x20, 0xA0, 0x1680, 0x2028, 0x2029, 0x202F, 0x205F,
          0x3000, 0xFEFF}
     \<or> (0x2000 \<le> u \<and> u \<le> 0x200A)"

definition trim :: "ustring \<Rightarrow> ustring" where
  "trim s = rev (dropWhile isWhiteSpace (rev (dropWhile isWhiteSpace s)))"

text \<open>
  \<open>s.split(sep)\<close> for a non-empty separator: the pieces between the occurrences of
  \<open>sep\<close>, found from left to right without overlap; \<open>acc\<close> is the piece being read.
  Both call sites pass a non-empty literal.
\<close>

function split_from :: "'a list \<Rightarrow> 'a list \<Rightarrow> 'a list \<Rightarrow> 'a list list" where
  "split_from sep acc [] = [acc]"
| "split_from sep acc (c # cs) =
     (if sep \<noteq> [] \<and> prefix sep (c # cs)
      then acc # split_from sep [] (drop (length sep) (c # cs))
      else split_from sep (acc @ [c]) cs)"
  by pat_completeness auto
termination
  by (relation "measure (\<lambda>(sep, acc, s). length s)") auto

definition split :: "'a list \<Rightarrow> 'a list \<Rightarrow> 'a list list" where
  "split s sep = split_from sep [] s"

text \<open>The two separators: the line feed, and the two characters backslash and n.\<close>

definition LF :: ustring where
  "LF = [0xA]"

definition backslash_n :: ustring where
  "backslash_n = [0x5C, 0x6E]"

definition startsWith :: "ustring \<Rightarrow> ustring \<Rightarrow> bool" where
  "startsWith s p = prefix p s"

definition substring :: "ustring \<Rightarrow> nat \<Rightarrow> ustring" where
  "substring s n = drop n s"

subsection \<open>Values\<close>

text \<open>
  The values the listeners handle: what \<open>JSON.parse\<close> returns, and \<open>undefined\<close> from a
  missing property.  A number is kept as the text \<open>String(x)\<close> gives for it, which is
  \<open>0\<close> exactly for the two zeros.  An object is the list of its own properties.
\<close>

datatype jsval =
    Undefined
  | Null
  | Bool bool
  | Num ustring
  | Str ustring
  | Arr "jsval list"
  | Obj "(ustring \<times> jsval) list"

fun truthy :: "jsval \<Rightarrow> bool" where
  "truthy Undefined = False"
| "truthy Null = False"
| "truthy (Bool b) = b"
| "truthy (Num n) = (n \<noteq> ascii ''0'' \<and> n \<noteq> ascii ''NaN'')"
| "truthy (Str s) = (s \<noteq> [])"
| "truthy (Arr xs) = True"
| "truthy (Obj kvs) = True"

text \<open>
  The properties the source reads: \<open>choices\<close>, \<open>[0]\<close>, \<open>delta\<close>, \<open>message\<close>, \<open>content\<close> and
  \<open>finish_reason\<close>.  None of them is inherited from a prototype, so a read is a look-up
  among the own properties; on a string \<open>[0]\<close> is its first code unit.  Reading a
  property of \<open>undefined\<close> or \<open>null\<close> throws a TypeError, the value \<open>None\<close> here.
\<close>

datatype property = P_choices | P_0 | P_delta | P_message | P_content | P_finish_reason

fun key :: "property \<Rightarrow> ustring" where
  "key P_choices = ascii ''choices''"
| "key P_0 = ascii ''0''"
| "key P_delta = ascii ''delta''"
| "key P_message = ascii ''message''"
| "key P_content = ascii ''content''"
| "key P_finish_reason = ascii ''finish_reason''"

fun get :: "jsval \<Rightarrow> property \<Rightarrow> jsval option" where
  "get Undefined p = None"
| "get Null p = None"
| "get (Obj kvs) p = Some (case map_of kvs (key p) of None \<Rightarrow> Undefined | Some v \<Rightarrow> v)"
| "get (Arr xs) p = Some (case (p, xs) of (P_0, x # _) \<Rightarrow> x | _ \<Rightarrow> Undefined)"
| "get (Str s) p = Some (case (p, s) of (P_0, c # _) \<Rightarrow> Str [c] | _ \<Rightarrow> Undefined)"
| "get (Bool b) p = Some Undefined"
| "get (Num n) p = Some Undefined"

text \<open>The optional chain \<open>v?.p\<close> gives \<open>undefined\<close> where \<open>v.p\<close> would throw.\<close>

definition get_opt :: "jsval \<Rightarrow> property \<Rightarrow> jsval" where
  "get_opt v p = (case get v p of None \<Rightarrow> Undefined | Some x \<Rightarrow> x)"

text \<open>
  \<open>fullResponse += content\<close> appends \<open>String(content)\<close>.  An array is the join of its
  elements by a comma, with \<open>null\<close> and \<open>undefined\<close> as the empty string; an object is \<open>[object Object]\<close>,
  unless it has a property \<open>toString\<close> of its own: no value from \<open>JSON.parse\<close> can be
  called, so the conversion throws a TypeError (\<open>None\<close>).
\<close>

fun join :: "ustring \<Rightarrow> ustring list \<Rightarrow> ustring" where
  "join sep [] = []"
| "join sep [x] = x"
| "join sep (x # y # ys) = x @ sep @ join sep (y # ys)"

fun sequence :: "'a option list \<Rightarrow> 'a list option" where
  "sequence [] = Some []"
| "sequence (None # xs) = None"
| "sequence (Some x # xs) = (case sequence xs of None \<Rightarrow> None | Some ys \<Rightarrow> Some (x # ys))"

fun ToString :: "jsval \<Rightarrow> ustring option" where
  "ToString Undefined = Some (ascii ''undefined'')"
| "ToString Null = Some (ascii ''null'')"
| "ToString (Bool b) = Some (if b then ascii ''true'' else ascii ''false'')"
| "ToString (Num n) = Some n"
| "ToString (Str s) = Some s"
| "ToString (Arr xs) =
     (case sequence (map (\<lambda>x. if x = Null \<or> x = Undefined then Some [] else ToString x) xs) of
        None \<Rightarrow> None
      | Some ss \<Rightarrow> Some (join (ascii '','') ss))"
| "ToString (Obj kvs) =
     (if ascii ''toString'' \<in> fst ` set kvs then None else Some (ascii ''[object Object]''))"


section \<open>The decode loops\<close>

subsection \<open>The variables of a request and the promise\<close>

text \<open>
  The listeners of one request share \<open>buffer\<close> and \<open>fullResponse\<close>, the sink (\<open>onChunk\<close> or
  \<open>onStream\<close>, modelled by the list of the values it was called with, oldest first) and
  the promise.  A promise is settled once: \<open>resolve\<close> and \<open>reject\<close> on a settled promise
  do nothing.  \<open>OllamaService.chat\<close> resolves with a string,
  \<open>OllamaLanguageModelProvider.chat\<close> with nothing.
\<close>

datatype 'r outcome = Resolved 'r | Rejected ustring

record 'r chat =
  buffer :: ustring
  fullResponse :: ustring
  sink :: "jsval list"
  promise :: "'r outcome option"

definition start :: "'r chat" where
  "start = \<lparr>buffer = [], fullResponse = [], sink = [], promise = None\<rparr>"

definition resolve :: "'r \<Rightarrow> 'r chat \<Rightarrow> 'r chat" where
  "resolve v st = (case promise st of None \<Rightarrow> st\<lparr>promise := Some (Resolved v)\<rparr> | Some _ \<Rightarrow> st)"

definition reject :: "ustring \<Rightarrow> 'r chat \<Rightarrow> 'r chat" where
  "reject e st = (case promise st of None \<Rightarrow> st\<lparr>promise := Some (Rejected e)\<rparr> | Some _ \<Rightarrow> st)"

definition onStream :: "jsval \<Rightarrow> 'r chat \<Rightarrow> 'r chat" where
  "onStream v st = st\<lparr>sink := sink st @ [v]\<rparr>"

text \<open>\<open>JSON.parse\<close> is the runtime's: a parameter, \<open>None\<close> where it throws a SyntaxError.\<close>

type_synonym JSON_parse = "ustring \<Rightarrow> jsval option"

subsection \<open>One record\<close>

text \<open>
  \<open>let jsonStr = trimmedLine; if (jsonStr.startsWith('data: ')) jsonStr =
  jsonStr.substring(6).trim();\<close>
\<close>

definition jsonStr_of :: "ustring \<Rightarrow> ustring" where
  "jsonStr_of trimmedLine =
     (if startsWith trimmedLine (ascii ''data: '') then trim (substring trimmedLine 6)
      else trimmedLine)"

text \<open>
  \<open>fullResponse += content; onChunk(content);\<close>  The conversion to a string comes first:
  where it throws, neither variable has changed.
\<close>

definition emit :: "jsval \<Rightarrow> 'r chat \<Rightarrow> 'r chat option" where
  "emit c st =
     (case ToString c of
        None \<Rightarrow> None
      | Some s \<Rightarrow> Some (onStream c (st\<lparr>fullResponse := fullResponse st @ s\<rparr>)))"

text \<open>
  The body of a \<open>try\<close> block gives \<open>None\<close> where it throws (the \<open>catch\<close> block then logs at
  most), and otherwise the new variables with a flag: \<open>True\<close> where the listener returns.

  In \<open>src/ollamaService.ts\<close>:
  \<^verbatim>\<open>const data = JSON.parse(jsonStr);
if (data.choices && data.choices[0]?.delta?.content) {
    const content = data.choices[0].delta.content;
    fullResponse += content;
    onChunk(content);
}\<close>
\<close>

definition try_delta :: "JSON_parse \<Rightarrow> ustring \<Rightarrow> 'r chat \<Rightarrow> (bool \<times> 'r chat) option" where
  "try_delta parse jsonStr st =
     (case parse jsonStr of
        None \<Rightarrow> None
      | Some data \<Rightarrow>
          (case get data P_choices of
             None \<Rightarrow> None
           | Some cs \<Rightarrow>
               if truthy cs \<and> truthy (get_opt (get_opt (get_opt cs P_0) P_delta) P_content)
               then map_option (Pair False)
                      (emit (get_opt (get_opt (get_opt cs P_0) P_delta) P_content) st)
               else Some (False, st)))"

text \<open>
  In the second copy of \<open>ollamaService.ts\<close> and in \<open>ollamaLanguageModelProvider.ts\<close>
  (\<open>ret\<close> is the argument of \<open>resolve\<close>: \<open>fullResponse\<close> in the first, nothing in the
  second):
  \<^verbatim>\<open>const data = JSON.parse(jsonStr);
if (data.choices && data.choices[0]) {
    const choice = data.choices[0];
    let content = '';
    if (choice.delta && choice.delta.content) {
        content = choice.delta.content;
    }
    else if (choice.message && choice.message.content) {
        content = choice.message.content;
    }
    if (content) {
        fullResponse += content;
        onStream(content);
    }
    if (choice.finish_reason === 'stop') {
        resolve();
        return;
    }
}\<close>
  Only \<open>data.choices\<close> can throw here (on \<open>null\<close>): every other read is guarded by the
  truthiness of its object.
\<close>

definition content_of :: "jsval \<Rightarrow> jsval" where
  "content_of choice =
     (if truthy (get_opt choice P_delta) \<and> truthy (get_opt (get_opt choice P_delta) P_content)
      then get_opt (get_opt choice P_delta) P_content
      else if truthy (get_opt choice P_message)
              \<and> truthy (get_opt (get_opt choice P_message) P_content)
      then get_opt (get_opt choice P_message) P_content
      else Str [])"

definition try_choice ::
  "('r chat \<Rightarrow> 'r) \<Rightarrow> JSON_parse \<Rightarrow> ustring \<Rightarrow> 'r chat \<Rightarrow> (bool \<times> 'r chat) option" where
  "try_choice ret parse jsonStr st =
     (case parse jsonStr of
        None \<Rightarrow> None
      | Some data \<Rightarrow>
          (case get data P_choices of
             None \<Rightarrow> None
           | Some cs \<Rightarrow>
               if truthy cs \<and> truthy (get_opt cs P_0)
               then (case (if truthy (content_of (get_opt cs P_0))
                           then emit (content_of (get_opt cs P_0)) st else Some st) of
                       None \<Rightarrow> None
                     | Some st' \<Rightarrow>
                         if get_opt (get_opt cs P_0) P_finish_reason = Str (ascii ''stop'')
                         then Some (True, resolve (ret st') st')
                         else Some (False, st'))
               else Some (False, st)))"

subsection \<open>The loop over the lines\<close>

text \<open>
  The same text in the three copies, around the \<open>try\<close> block:
  \<^verbatim>\<open>for (const line of lines) {
    const trimmedLine = line.trim();
    if (trimmedLine === '') continue;
    let jsonStr = trimmedLine;
    if (jsonStr.startsWith('data: ')) {
        jsonStr = jsonStr.substring(6).trim();
    }
    if (jsonStr === '[DONE]') {
        resolve(fullResponse);
        return;
    }
    try { ... } catch (e) { ... }
}\<close>
\<close>

fun for_lines ::
  "('r chat \<Rightarrow> 'r) \<Rightarrow> (ustring \<Rightarrow> 'r chat \<Rightarrow> (bool \<times> 'r chat) option) \<Rightarrow> ustring list
     \<Rightarrow> 'r chat \<Rightarrow> 'r chat" where
  "for_lines ret body [] st = st"
| "for_lines ret body (line # lines) st =
     (if trim line = [] then for_lines ret body lines st
      else if jsonStr_of (trim line) = ascii ''[DONE]'' then resolve (ret st) st
      else (case body (jsonStr_of (trim line)) st of
              None \<Rightarrow> for_lines ret body lines st
            | Some (True, st') \<Rightarrow> st'
            | Some (False, st') \<Rightarrow> for_lines ret body lines st'))"

subsection \<open>The listeners\<close>

text \<open>
  \<open>buffer += chunk.toString(); let lines = buffer.split(sep); buffer = lines.pop() || '';\<close>
  and then the loop.  \<open>pop\<close> removes the last element and returns it, \<open>undefined\<close> from an
  empty array.
\<close>

definition pop :: "ustring list \<Rightarrow> ustring" where
  "pop lines = (if lines = [] then [] else last lines)"

definition on_data ::
  "ustring \<Rightarrow> ('r chat \<Rightarrow> 'r) \<Rightarrow> (ustring \<Rightarrow> 'r chat \<Rightarrow> (bool \<times> 'r chat) option) \<Rightarrow> bytes
     \<Rightarrow> 'r chat \<Rightarrow> 'r chat" where
  "on_data sep ret body chunk st =
     for_lines ret body (butlast (split (buffer st @ Buffer_toString chunk) sep))
       (st\<lparr>buffer := pop (split (buffer st @ Buffer_toString chunk) sep)\<rparr>)"

text \<open>\<open>src/ollamaService.ts\<close>: the separator is \<open>'\\n'\<close>, a backslash and an n.\<close>

definition OllamaService_data :: "JSON_parse \<Rightarrow> bytes \<Rightarrow> ustring chat \<Rightarrow> ustring chat" where
  "OllamaService_data parse = on_data backslash_n fullResponse (try_delta parse)"

text \<open>The second copy: the separator is \<open>'\n'\<close>, the line feed.\<close>

definition OllamaService_v2_data :: "JSON_parse \<Rightarrow> bytes \<Rightarrow> ustring chat \<Rightarrow> ustring chat" where
  "OllamaService_v2_data parse = on_data LF fullResponse (try_choice fullResponse parse)"

text \<open>
  \<open>ollamaLanguageModelProvider.ts\<close>: the listener first reads the token,
  \<^verbatim>\<open>if (cancellationToken.isCancellationRequested) { resolve(); return; }\<close>
\<close>

definition OllamaLanguageModelProvider_data ::
  "JSON_parse \<Rightarrow> bool \<Rightarrow> bytes \<Rightarrow> unit chat \<Rightarrow> unit chat" where
  "OllamaLanguageModelProvider_data parse isCancellationRequested chunk st =
     (if isCancellationRequested then resolve () st
      else on_data LF (\<lambda>_. ()) (try_choice (\<lambda>_. ()) parse) chunk st)"

text \<open>
  The events of a request: \<open>data\<close>, \<open>end\<close> and \<open>error\<close> of the response stream, and the
  timer of two minutes that the second copy of \<open>OllamaService.chat\<close> starts,
  \<^verbatim>\<open>const timeout = setTimeout(() => {
    reject(new Error('Streaming response timeout'));
}, 120000);\<close>
  \<open>end\<close> resolves (the second copy registers two such listeners); \<open>error\<close> rejects with
  the error, whose message stands for it here, and in the provider first tells the sink.
  The other two copies start no timer: the event does not occur there.
\<close>

datatype event = Data bytes | End | Error ustring | Timeout

fun OllamaService_on :: "JSON_parse \<Rightarrow> ustring chat \<Rightarrow> event \<Rightarrow> ustring chat" where
  "OllamaService_on parse st (Data chunk) = OllamaService_data parse chunk st"
| "OllamaService_on parse st End = resolve (fullResponse st) st"
| "OllamaService_on parse st (Error e) = reject e st"
| "OllamaService_on parse st Timeout = st"

fun OllamaService_v2_on :: "JSON_parse \<Rightarrow> ustring chat \<Rightarrow> event \<Rightarrow> ustring chat" where
  "OllamaService_v2_on parse st (Data chunk) = OllamaService_v2_data parse chunk st"
| "OllamaService_v2_on parse st End = resolve (fullResponse st) (resolve (fullResponse st) st)"
| "OllamaService_v2_on parse st (Error e) = reject e st"
| "OllamaService_v2_on parse st Timeout = reject (ascii ''Streaming response timeout'') st"

text \<open>In the provider each event comes with the state of the token at that moment.\<close>

fun OllamaLanguageModelProvider_on ::
  "JSON_parse \<Rightarrow> unit chat \<Rightarrow> bool \<times> event \<Rightarrow> unit chat" where
  "OllamaLanguageModelProvider_on parse st (c, Data chunk) =
     OllamaLanguageModelProvider_data parse c chunk st"
| "OllamaLanguageModelProvider_on parse st (c, End) = resolve () st"
| "OllamaLanguageModelProvider_on parse st (c, Error e) =
     reject e (onStream (Str (ascii ''\<newline>\<newline>[Stream error: '' @ e @ ascii '']'')) st)"
| "OllamaLanguageModelProvider_on parse st (c, Timeout) = st"

text \<open>A request, once the response has arrived: the listeners run on the events in order.\<close>

definition OllamaService_chat :: "JSON_parse \<Rightarrow> event list \<Rightarrow> ustring chat" where
  "OllamaService_chat parse evs = foldl (OllamaService_on parse) start evs"

definition OllamaService_v2_chat :: "JSON_parse \<Rightarrow> event list \<Rightarrow> ustring chat" where
  "OllamaService_v2_chat parse evs = foldl (OllamaService_v2_on parse) start evs"

definition OllamaLanguageModelProvider_chat ::
  "JSON_parse \<Rightarrow> (bool \<times> event) list \<Rightarrow> unit chat" where
  "OllamaLanguageModelProvider_chat parse evs =
     foldl (OllamaLanguageModelProvider_on parse) start evs"

text \<open>
  The texts that the \<open>error\<close> listener of the provider builds for the \<open>error\<close> events among
  the given events, in order.
\<close>

definition stream_errors :: "(bool \<times> event) list \<Rightarrow> jsval list" where
  "stream_errors post =
     concat (map (\<lambda>tev. case snd tev of
                Error e \<Rightarrow> [Str (ascii ''\<newline>\<newline>[Stream error: '' @ e @ ascii '']'')]
              | _ \<Rightarrow> []) post)"

subsection \<open>The \<open>catch\<close> blocks around the request\<close>

text \<open>
  What the \<open>catch\<close> block reads of the error it caught: \<open>axios.isAxiosError(error)\<close>,
  \<open>error.code\<close>, \<open>error.response?.status\<close>, \<open>error.message\<close> and \<open>String(error)\<close>.
\<close>

record error =
  isAxiosError :: bool
  code :: "ustring option"
  status :: "nat option"
  errorMessage :: ustring
  errorString :: ustring



subsection \<open>The loop of \<open>VSCodeLanguageModelProvider.chat\<close>\<close>

text \<open>
  \<^verbatim>\<open>try {
    for await (const fragment of chatResponse.text) {
        if (cancellationToken.isCancellationRequested) {
            break;
        }
        onStream(fragment);
    }
} catch (streamError) {
    onStream(`\n\n[Error streaming response: ${streamError}]`);
}\<close>
  The response yields fragments, each met with the state of the token at that moment,
  or throws.  The function returns normally in every case.
\<close>

datatype step = Yield bool ustring | Throw ustring

fun VSCodeLanguageModelProvider_stream :: "step list \<Rightarrow> jsval list \<Rightarrow> jsval list" where
  "VSCodeLanguageModelProvider_stream [] out = out"
| "VSCodeLanguageModelProvider_stream (Yield isCancellationRequested fragment # rest) out =
     (if isCancellationRequested then out
      else VSCodeLanguageModelProvider_stream rest (out @ [Str fragment]))"
| "VSCodeLanguageModelProvider_stream (Throw streamError # rest) out =
     out @ [Str (ascii ''\<newline>\<newline>[Error streaming response: '' @ streamError @ ascii '']'')]"

section \<open>Notions of the specification\<close>





text \<open>The text a value adds to \<open>fullResponse\<close>; a string adds itself.\<close>

definition text_of :: "jsval \<Rightarrow> ustring" where
  "text_of v = (case ToString v of None \<Rightarrow> [] | Some s \<Rightarrow> s)"

text \<open>
  A line stops the loop when it is the sentinel or when the \<open>try\<close> block returns from the
  listener.
\<close>

definition stops :: "(ustring \<Rightarrow> 'r chat \<Rightarrow> (bool \<times> 'r chat) option) \<Rightarrow> ustring \<Rightarrow> bool" where
  "stops body line \<longleftrightarrow>
     trim line \<noteq> []
     \<and> (jsonStr_of (trim line) = ascii ''[DONE]''
        \<or> (case body (jsonStr_of (trim line)) start of Some (True, _) \<Rightarrow> True | _ \<Rightarrow> False))"

text \<open>
  What a \<open>try\<close> block may do to the variables: at most one call of the sink with a truthy
  value, whose text is appended to \<open>fullResponse\<close>, and then at most one \<open>resolve\<close>,
  with which the listener returns.
\<close>

definition emitted :: "'r chat \<Rightarrow> 'r chat \<Rightarrow> bool" where
  "emitted st st' \<longleftrightarrow>
     st' = st \<or> (\<exists>c s. truthy c \<and> ToString c = Some s
                    \<and> st' = onStream c (st\<lparr>fullResponse := fullResponse st @ s\<rparr>))"

definition step_ok :: "('r chat \<Rightarrow> 'r) \<Rightarrow> (ustring \<Rightarrow> 'r chat \<Rightarrow> (bool \<times> 'r chat) option) \<Rightarrow> bool" where
  "step_ok ret body \<longleftrightarrow>
     (\<forall>j st b st'. body j st = Some (b, st') \<longrightarrow>
        (\<exists>st''. emitted st st'' \<and> st' = (if b then resolve (ret st'') st'' else st'')))"

text \<open>
  The shadow copy: \<open>fullResponse\<close> is the text of what the sink was given.  And the
  values that reach the sink from a record are truthy.
\<close>

definition shadow :: "'r chat \<Rightarrow> bool" where
  "shadow st \<longleftrightarrow> fullResponse st = concat (map text_of (sink st))"

definition all_truthy :: "'r chat \<Rightarrow> bool" where
  "all_truthy st \<longleftrightarrow> (\<forall>v \<in> set (sink st). truthy v)"

text \<open>
  A \<open>try\<close> block is blind to the buffer when it neither reads nor writes it, and whether
  it returns from the listener depends on the record alone.
\<close>

definition returns :: "(bool \<times> 'r chat) option \<Rightarrow> bool" where
  "returns r = (case r of Some (True, _) \<Rightarrow> True | _ \<Rightarrow> False)"

definition blind :: "('r chat \<Rightarrow> 'r) \<Rightarrow> (ustring \<Rightarrow> 'r chat \<Rightarrow> (bool \<times> 'r chat) option) \<Rightarrow> bool" where
  "blind ret body \<longleftrightarrow>
     (\<forall>j st x. body j (st\<lparr>buffer := x\<rparr>) = map_option (\<lambda>(b, s). (b, s\<lparr>buffer := x\<rparr>)) (body j st))
     \<and> (\<forall>st x. ret (st\<lparr>buffer := x\<rparr>) = ret st)
     \<and> (\<forall>j st st'. returns (body j st) = returns (body j st'))"

subsection \<open>Records for the examples\<close>

text \<open>
  The values of \<open>JSON.parse\<close> on the eight records the examples below use.  Every other
  text the examples pass to it is not JSON.
\<close>

definition choice_record :: "(ustring \<times> jsval) list \<Rightarrow> jsval" where
  "choice_record props = Obj [(ascii ''choices'', Arr [Obj props])]"

definition content_field :: "string \<Rightarrow> string \<Rightarrow> ustring \<times> jsval" where
  "content_field name c = (ascii name, Obj [(ascii ''content'', Str (ascii c))])"

definition example_parse :: JSON_parse where
  \<open>example_parse s =
     (if s = ascii ''{"choices":[{"delta":{"content":"Hel"}}]}''
      then Some (choice_record [content_field ''delta'' ''Hel''])
      else if s = ascii ''{"choices":[{"delta":{"content":"lo"}}]}''
      then Some (choice_record [content_field ''delta'' ''lo''])
      else if s = ascii ''{"choices":[{"delta":{"content":""}}]}''
      then Some (choice_record [content_field ''delta'' []])
      else if s = ascii ''{"choices":[{"message":{"content":"Hi"}}]}''
      then Some (choice_record [content_field ''message'' ''Hi''])
      else if s = ascii ''{"choices":[{"delta":{"content":"lo"},"finish_reason":"stop"}]}''
      then Some (choice_record
                   [content_field ''delta'' ''lo'', (ascii ''finish_reason'', Str (ascii ''stop''))])
      else if s = ascii ''{"choices":{"0":{"delta":{"content":"K"}}}}''
      then Some (Obj [(ascii ''choices'', Obj [(ascii ''0'', Obj [content_field ''delta'' ''K''])])])
      else if s = ascii ''{"choices":[{"delta":{"content":[]}}]}''
      then Some (choice_record [(ascii ''delta'', Obj [(ascii ''content'', Arr [])])])
      else if s = ascii ''{"model":"llama3"}''
      then Some (Obj [(ascii ''model'', Str (ascii ''llama3''))])
      else None)\<close>

definition Hel :: string where
  \<open>Hel = ''data: {"choices":[{"delta":{"content":"Hel"}}]}''\<close>

definition lo :: string where
  \<open>lo = ''data: {"choices":[{"delta":{"content":"lo"}}]}''\<close>

definition Hi :: string where
  \<open>Hi = ''data: {"choices":[{"message":{"content":"Hi"}}]}''\<close>

definition lo_stop :: string where
  \<open>lo_stop = ''data: {"choices":[{"delta":{"content":"lo"},"finish_reason":"stop"}]}''\<close>


definition DONE :: string where
  "DONE = ''data: [DONE]''"










text \<open>A streamed body: each record on a line of its own.\<close>

definition sse :: "string list \<Rightarrow> bytes" where
  "sse records = concat (map (\<lambda>r. r @ ''\<newline>'') records)"

section \<open>Properties\<close>

subsection \<open>The \<open>try\<close> blocks and the loop\<close>

lemma resolve_simps [simp]:
  "buffer (resolve v st) = buffer st" "fullResponse (resolve v st) = fullResponse st"
  "sink (resolve v st) = sink st"
  "promise (resolve v st) = (case promise st of None \<Rightarrow> Some (Resolved v) | Some x \<Rightarrow> Some x)"
  by (auto simp: resolve_def split: option.splits)

lemma reject_simps [simp]:
  "buffer (reject e st) = buffer st" "fullResponse (reject e st) = fullResponse st"
  "sink (reject e st) = sink st"
  "promise (reject e st) = (case promise st of None \<Rightarrow> Some (Rejected e) | Some x \<Rightarrow> Some x)"
  by (auto simp: reject_def split: option.splits)

lemma onStream_simps [simp]:
  "buffer (onStream c st) = buffer st" "fullResponse (onStream c st) = fullResponse st"
  "sink (onStream c st) = sink st @ [c]" "promise (onStream c st) = promise st"
  by (auto simp: onStream_def)

lemma emitted_promise: "emitted st st' \<Longrightarrow> promise st' = promise st"
  by (auto simp: emitted_def)

lemma emit_emitted: "truthy c \<Longrightarrow> emit c st = Some st' \<Longrightarrow> emitted st st'"
  by (auto simp: emit_def emitted_def split: option.splits)

lemma try_delta_emitted: "try_delta parse j st = Some (b, st') \<Longrightarrow> \<not> b \<and> emitted st st'"
  by (auto simp: try_delta_def split: option.splits if_splits dest: emit_emitted)
    (auto simp: emitted_def)

lemma step_ok_try_delta: "step_ok ret (try_delta parse)"
  unfolding step_ok_def using try_delta_emitted by fastforce

lemma step_ok_try_choice: "step_ok ret (try_choice ret parse)"
  unfolding step_ok_def
proof (intro allI impI)
  fix j st b st'
  assume h: "try_choice ret parse j st = Some (b, st')"
  then show "\<exists>st''. emitted st st'' \<and> st' = (if b then resolve (ret st'') st'' else st'')"
    by (auto simp: try_choice_def split: option.splits if_splits dest: emit_emitted)
      (auto simp: emitted_def)
qed

lemma for_lines_rule:
  assumes ok: "step_ok ret body"
    and emit: "\<And>st c s. P st \<Longrightarrow> truthy c \<Longrightarrow> ToString c = Some s
                 \<Longrightarrow> P (onStream c (st\<lparr>fullResponse := fullResponse st @ s\<rparr>))"
    and res: "\<And>st. P st \<Longrightarrow> P (resolve (ret st) st)"
  shows "P st \<Longrightarrow> P (for_lines ret body lines st)"
proof (induction lines arbitrary: st)
  case Nil
  then show ?case by simp
next
  case (Cons line lines)
  have em: "P b" if "emitted a b" "P a" for a b
    using that emit by (auto simp: emitted_def)
  show ?case
  proof (cases "body (jsonStr_of (trim line)) st")
    case None
    then show ?thesis using Cons res by simp
  next
    case (Some r)
    obtain b st' where r: "r = (b, st')" by (cases r)
    from ok Some r obtain st'' where s: "emitted st st''"
      "st' = (if b then resolve (ret st'') st'' else st'')"
      unfolding step_ok_def by blast
    have "P st''" using em s(1) Cons.prems by blast
    then have "P st'" using s(2) res by auto
    then show ?thesis using Cons Some r res by (cases b) auto
  qed
qed

subsection \<open>Splitting at the line feed\<close>

lemma split_from_none: "n \<notin> set xs \<Longrightarrow> split_from [n] acc xs = [acc @ xs]"
  by (induction xs arbitrary: acc) auto

lemma split_from_first:
  "n \<notin> set xs \<Longrightarrow> split_from [n] acc (xs @ n # ys) = (acc @ xs) # split_from [n] [] ys"
  by (induction xs arbitrary: acc) auto

lemma split_from_lines:
  "\<forall>l \<in> set lines. n \<notin> set l \<Longrightarrow> n \<notin> set rest \<Longrightarrow>
   split_from [n] [] (concat (map (\<lambda>l. l @ [n]) lines) @ rest) = lines @ [rest]"
proof (induction lines)
  case Nil
  then show ?case by (simp add: split_from_none)
next
  case (Cons l lines)
  then show ?case using split_from_first [of n l "[]"] by simp
qed

lemma on_data_LF:
  assumes "buffer st @ Buffer_toString chunk = concat (map (\<lambda>l. l @ LF) lines) @ rest"
    and "\<forall>l \<in> set lines. 0xA \<notin> set l" and "0xA \<notin> set rest"
  shows "on_data LF ret body chunk st = for_lines ret body lines (st\<lparr>buffer := rest\<rparr>)"
  using assms split_from_lines [of lines "0xA" rest]
  by (simp add: on_data_def split_def LF_def pop_def)

lemma lines_exist:
  "\<exists>lines rest. s = concat (map (\<lambda>l. l @ [n]) lines) @ rest
      \<and> (\<forall>l \<in> set lines. n \<notin> set l) \<and> n \<notin> set rest"
proof (induction s rule: rev_induct)
  case Nil
  show ?case by (rule exI [of _ "[]"]) simp
next
  case (snoc x xs)
  then obtain lines rest where h: "xs = concat (map (\<lambda>l. l @ [n]) lines) @ rest"
    "\<forall>l \<in> set lines. n \<notin> set l" "n \<notin> set rest" by blast
  show ?case
  proof (cases "x = n")
    case True
    show ?thesis
      by (rule exI [of _ "lines @ [rest]"], rule exI [of _ "[]"]) (use h True in simp)
  next
    case False
    show ?thesis
      by (rule exI [of _ lines], rule exI [of _ "rest @ [x]"]) (use h False in simp)
  qed
qed


text \<open>
  The step of the two copies that split at the line feed: the buffer with the text of
  the chunk appended is cut at every line feed, the lines before the last line feed go
  to the loop and what follows it is the new buffer.
\<close>

lemma line_buffering_LF:
  "\<exists>lines rest.
      buffer st @ Buffer_toString chunk = concat (map (\<lambda>l. l @ LF) lines) @ rest
    \<and> (\<forall>l \<in> set lines. 0xA \<notin> set l) \<and> 0xA \<notin> set rest
    \<and> on_data LF ret body chunk st = for_lines ret body lines (st\<lparr>buffer := rest\<rparr>)"
proof -
  obtain lines rest where h:
    "buffer st @ Buffer_toString chunk = concat (map (\<lambda>l. l @ [0xA]) lines) @ rest"
    "\<forall>l \<in> set lines. 0xA \<notin> set l" "0xA \<notin> set rest"
    using lines_exist [of "buffer st @ Buffer_toString chunk" "0xA"] by blast
  have "on_data LF ret body chunk st = for_lines ret body lines (st\<lparr>buffer := rest\<rparr>)"
    by (rule on_data_LF) (use h in \<open>auto simp: LF_def\<close>)
  then show ?thesis using h by (auto simp: LF_def)
qed

text \<open>
  Claim C2.  The copy in \<open>src/ollamaService.ts\<close> splits at the two characters backslash
  and n instead.  A complete line, here the sentinel followed by a line feed, is not
  extracted: it stays in the buffer, line feed included, and nothing is processed.  And
  a backslash followed by n inside the text is taken for a separator and removed.
\<close>

theorem line_feed_not_a_separator:
  "OllamaService_data parse (DONE @ ''\<newline>'') start = start\<lparr>buffer := ascii (DONE @ ''\<newline>'')\<rparr>
   \<and> split (ascii [CHR ''a'', CHR 0x5C, CHR ''n'', CHR ''b'']) backslash_n = [ascii ''a'', ascii ''b'']"
  by (simp add: OllamaService_data_def on_data_def split_def backslash_n_def pop_def
      start_def DONE_def ascii_def)

subsection \<open>Malformed records\<close>

lemma falsy_get_opt: "\<not> truthy x \<Longrightarrow> get_opt x p = Undefined"
  by (cases x; cases p) (simp_all add: get_opt_def)











subsection \<open>The shadow copy\<close>

lemma shadow_settle [simp]:
  "shadow (resolve v st) = shadow st" "shadow (reject e st) = shadow st"
  by (simp_all add: shadow_def)

lemma for_lines_shadow:
  "step_ok ret body \<Longrightarrow> shadow st \<Longrightarrow> shadow (for_lines ret body lines st)"
  by (rule for_lines_rule [where P = shadow]) (auto simp: shadow_def text_of_def)

lemma for_lines_settled:
  "step_ok ret body \<Longrightarrow> promise st = Some x \<Longrightarrow> promise (for_lines ret body lines st) = Some x"
  by (rule for_lines_rule [where P = "\<lambda>st. promise st = Some x"]) auto

lemma for_lines_resolved:
  assumes ok: "step_ok fullResponse body"
  shows "promise st = None \<Longrightarrow> promise (for_lines fullResponse body lines st) = Some (Resolved v)
         \<Longrightarrow> v = fullResponse (for_lines fullResponse body lines st)"
proof (induction lines arbitrary: st)
  case Nil
  then show ?case by simp
next
  case (Cons line lines)
  show ?case
  proof (cases "trim line = [] \<or> body (jsonStr_of (trim line)) st = None")
    case True
    then show ?thesis using Cons by (auto split: if_splits)
  next
    case False
    then obtain b st' where r: "body (jsonStr_of (trim line)) st = Some (b, st')" by auto
    from ok r obtain st'' where s: "emitted st st''"
      "st' = (if b then resolve (fullResponse st'') st'' else st'')"
      unfolding step_ok_def by blast
    have p: "promise st'' = None" using emitted_promise [OF s(1)] Cons.prems(1) by simp
    show ?thesis
    proof (cases "jsonStr_of (trim line) = ascii ''[DONE]''")
      case True
      then show ?thesis using False Cons.prems by simp
    next
      case nd: False
      show ?thesis
      proof (cases b)
        case True
        then show ?thesis using False nd r s p Cons.prems by simp
      next
        case b: False
        then have "promise st' = None" using s p by simp
        then show ?thesis using False nd r b Cons.IH [of st'] Cons.prems by simp
      qed
    qed
  qed
qed

lemma on_data_shadow: "step_ok ret body \<Longrightarrow> shadow st \<Longrightarrow> shadow (on_data sep ret body chunk st)"
  unfolding on_data_def by (rule for_lines_shadow) (auto simp: shadow_def)

lemma on_data_settled:
  "step_ok ret body \<Longrightarrow> promise st = Some x \<Longrightarrow> promise (on_data sep ret body chunk st) = Some x"
  unfolding on_data_def by (rule for_lines_settled) auto

lemma on_data_resolved:
  "step_ok fullResponse body \<Longrightarrow> promise st = None
   \<Longrightarrow> promise (on_data sep fullResponse body chunk st) = Some (Resolved v)
   \<Longrightarrow> v = fullResponse (on_data sep fullResponse body chunk st)"
  unfolding on_data_def by (rule for_lines_resolved) auto

lemma first_resolution:
  assumes keep: "\<And>st ev x. promise st = Some x \<Longrightarrow> promise (on st ev) = Some x"
    and inv: "\<And>st ev. shadow st \<Longrightarrow> shadow (on st ev)"
    and res: "\<And>st ev v. promise st = None \<Longrightarrow> promise (on st ev) = Some (Resolved v)
                \<Longrightarrow> v = fullResponse (on st ev)"
  shows "promise (foldl on start evs) = Some (Resolved v) \<Longrightarrow>
         \<exists>n \<le> length evs. promise (foldl on start (take n evs)) = Some (Resolved v)
            \<and> (\<forall>m < n. promise (foldl on start (take m evs)) = None)
            \<and> v = concat (map text_of (sink (foldl on start (take n evs))))"
proof (induction evs rule: rev_induct)
  case Nil
  then show ?case by (simp add: start_def)
next
  case (snoc ev evs)
  have sh: "shadow (foldl on start es)" for es
  proof (induction es rule: rev_induct)
    case Nil
    show ?case by (simp add: shadow_def start_def)
  next
    case (snoc e es)
    then show ?case by (simp add: inv)
  qed
  show ?case
  proof (cases "promise (foldl on start evs)")
    case None
    have none: "promise (foldl on start (take m evs)) = None" for m
    proof (rule ccontr)
      assume "promise (foldl on start (take m evs)) \<noteq> None"
      then obtain x where x: "promise (foldl on start (take m evs)) = Some x" by auto
      have "promise (foldl on (foldl on start (take m evs)) es) = Some x" for es
        by (induction es rule: rev_induct) (auto simp: x keep)
      from this [of "drop m evs"] have "promise (foldl on start evs) = Some x"
        by (simp flip: foldl_append)
      then show False using None by simp
    qed
    have "v = fullResponse (foldl on start (evs @ [ev]))"
      using res [OF None, of ev v] snoc.prems by simp
    then have "v = concat (map text_of (sink (foldl on start (evs @ [ev]))))"
      using sh [of "evs @ [ev]"] by (simp add: shadow_def)
    then show ?thesis
      using snoc.prems none by (intro exI [of _ "Suc (length evs)"]) (auto simp: less_Suc_eq_le)
  next
    case (Some x)
    then have "x = Resolved v" using keep [OF Some, of ev] snoc.prems by simp
    then obtain n where n: "n \<le> length evs"
      "promise (foldl on start (take n evs)) = Some (Resolved v)"
      "\<forall>m < n. promise (foldl on start (take m evs)) = None"
      "v = concat (map text_of (sink (foldl on start (take n evs))))"
      using snoc.IH Some by blast
    then show ?thesis by (intro exI [of _ n]) auto
  qed
qed

lemma OllamaService_on_settled:
  "promise st = Some x \<Longrightarrow> promise (OllamaService_on parse st ev) = Some x"
  by (cases ev) (simp_all add: OllamaService_data_def on_data_settled step_ok_try_delta)

lemma OllamaService_on_shadow: "shadow st \<Longrightarrow> shadow (OllamaService_on parse st ev)"
  by (cases ev) (simp_all add: OllamaService_data_def on_data_shadow step_ok_try_delta)

lemma OllamaService_on_resolved:
  "promise st = None \<Longrightarrow> promise (OllamaService_on parse st ev) = Some (Resolved v)
     \<Longrightarrow> v = fullResponse (OllamaService_on parse st ev)"
  by (cases ev) (simp_all add: OllamaService_data_def on_data_resolved step_ok_try_delta)

lemma OllamaService_v2_on_settled:
  "promise st = Some x \<Longrightarrow> promise (OllamaService_v2_on parse st ev) = Some x"
  by (cases ev) (simp_all add: OllamaService_v2_data_def on_data_settled step_ok_try_choice)

lemma OllamaService_v2_on_shadow: "shadow st \<Longrightarrow> shadow (OllamaService_v2_on parse st ev)"
  by (cases ev) (simp_all add: OllamaService_v2_data_def on_data_shadow step_ok_try_choice)

lemma OllamaService_v2_on_resolved:
  "promise st = None \<Longrightarrow> promise (OllamaService_v2_on parse st ev) = Some (Resolved v)
     \<Longrightarrow> v = fullResponse (OllamaService_v2_on parse st ev)"
  by (cases ev) (simp_all add: OllamaService_v2_data_def on_data_resolved step_ok_try_choice)

text \<open>
  What the shadow copy does achieve: when \<open>OllamaService.chat\<close> resolves with the string
  \<open>v\<close>, in either copy, there is an event at which the promise went from pending to
  resolved with \<open>v\<close>, and \<open>v\<close> is the concatenation, in order, of the texts of all the
  values the sink had been given by the end of that event.
\<close>

lemma resolved_with_text_so_far:
  "(promise (OllamaService_chat parse evs) = Some (Resolved v) \<longrightarrow>
      (\<exists>n \<le> length evs.
          promise (OllamaService_chat parse (take n evs)) = Some (Resolved v)
        \<and> (\<forall>m < n. promise (OllamaService_chat parse (take m evs)) = None)
        \<and> v = concat (map text_of (sink (OllamaService_chat parse (take n evs))))))
   \<and> (promise (OllamaService_v2_chat parse evs) = Some (Resolved v) \<longrightarrow>
      (\<exists>n \<le> length evs.
          promise (OllamaService_v2_chat parse (take n evs)) = Some (Resolved v)
        \<and> (\<forall>m < n. promise (OllamaService_v2_chat parse (take m evs)) = None)
        \<and> v = concat (map text_of (sink (OllamaService_v2_chat parse (take n evs))))))"
proof (intro conjI impI)
  assume "promise (OllamaService_chat parse evs) = Some (Resolved v)"
  then show "\<exists>n \<le> length evs.
          promise (OllamaService_chat parse (take n evs)) = Some (Resolved v)
        \<and> (\<forall>m < n. promise (OllamaService_chat parse (take m evs)) = None)
        \<and> v = concat (map text_of (sink (OllamaService_chat parse (take n evs))))"
    unfolding OllamaService_chat_def
    by (rule first_resolution [rotated -1])
      (erule OllamaService_on_settled OllamaService_on_shadow OllamaService_on_resolved, assumption?)+
next
  assume "promise (OllamaService_v2_chat parse evs) = Some (Resolved v)"
  then show "\<exists>n \<le> length evs.
          promise (OllamaService_v2_chat parse (take n evs)) = Some (Resolved v)
        \<and> (\<forall>m < n. promise (OllamaService_v2_chat parse (take m evs)) = None)
        \<and> v = concat (map text_of (sink (OllamaService_v2_chat parse (take n evs))))"
    unfolding OllamaService_v2_chat_def
    by (rule first_resolution [rotated -1])
      (erule OllamaService_v2_on_settled OllamaService_v2_on_shadow OllamaService_v2_on_resolved,
        assumption?)+
qed

text \<open>
  Claim C9.  The sink is given more than the string that \<open>OllamaService.chat\<close> returns:
  after a record with the finish reason \<open>stop\<close>, or after the sentinel, the promise is
  resolved with the text so far, and the record of the next chunk still reaches the
  sink.
\<close>

theorem sink_ahead_of_result:
  "promise (OllamaService_v2_chat example_parse
              [Data (lo_stop @ ''\<newline>''), Data (Hel @ ''\<newline>''), End])
     = Some (Resolved (ascii ''lo''))
   \<and> sink (OllamaService_v2_chat example_parse
              [Data (lo_stop @ ''\<newline>''), Data (Hel @ ''\<newline>''), End])
     = [Str (ascii ''lo''), Str (ascii ''Hel'')]
   \<and> promise (OllamaService_chat example_parse
              [Data (DONE @ [CHR 0x5C, CHR ''n'']), Data (Hel @ [CHR 0x5C, CHR ''n'']), End])
     = Some (Resolved [])
   \<and> sink (OllamaService_chat example_parse
              [Data (DONE @ [CHR 0x5C, CHR ''n'']), Data (Hel @ [CHR 0x5C, CHR ''n'']), End])
     = [Str (ascii ''Hel'')]"
  by code_simp

subsection \<open>What reaches the sink\<close>

lemma all_truthy_settle [simp]:
  "all_truthy (resolve v st) = all_truthy st" "all_truthy (reject e st) = all_truthy st"
  by (simp_all add: all_truthy_def)





lemma ascii_Nil [simp]: "ascii s = [] \<longleftrightarrow> s = []"
  by (simp add: ascii_def)



lemma truthy_not_empty: "truthy v \<Longrightarrow> v \<noteq> Str []"
  by auto






subsection \<open>The \<open>catch\<close> blocks\<close>





subsection \<open>Cancellation\<close>

lemma settled_resolve: "promise st = Some x \<Longrightarrow> resolve v st = st"
  by (simp add: resolve_def)

lemma VSCode_break:
  "VSCodeLanguageModelProvider_stream (pre @ Yield True fragment # post) out
     = VSCodeLanguageModelProvider_stream pre out"
  by (induction pre out rule: VSCodeLanguageModelProvider_stream.induct) simp_all

lemma OllamaLanguageModelProvider_on_settled:
  "promise st = Some x \<Longrightarrow> promise (OllamaLanguageModelProvider_on parse st tev) = Some x"
proof (cases tev)
  case (Pair c ev)
  assume "promise st = Some x"
  then show ?thesis unfolding Pair
    by (cases ev)
      (simp_all add: OllamaLanguageModelProvider_data_def on_data_settled step_ok_try_choice)
qed

lemma settled_for_good:
  "promise st = Some x \<Longrightarrow> promise (foldl (OllamaLanguageModelProvider_on parse) st post) = Some x"
  by (induction post rule: rev_induct) (simp_all add: OllamaLanguageModelProvider_on_settled)

lemma cancelled_post:
  assumes "promise st = Some x" and "\<forall>tev \<in> set post. fst tev"
  shows "sink (foldl (OllamaLanguageModelProvider_on parse) st post) = sink st @ stream_errors post
       \<and> buffer (foldl (OllamaLanguageModelProvider_on parse) st post) = buffer st"
  using assms
proof (induction post rule: rev_induct)
  case Nil
  then show ?case by (simp add: stream_errors_def)
next
  case (snoc tev post)
  let ?st = "foldl (OllamaLanguageModelProvider_on parse) st post"
  have p: "promise ?st = Some x" using snoc.prems(1) by (rule settled_for_good)
  obtain c ev where tev: "tev = (c, ev)" by (cases tev)
  have c: c using snoc.prems(2) tev by simp
  have "sink (OllamaLanguageModelProvider_on parse ?st (c, ev)) = sink ?st @ stream_errors [(c, ev)]
      \<and> buffer (OllamaLanguageModelProvider_on parse ?st (c, ev)) = buffer ?st"
    using p c
    by (cases ev)
      (simp_all add: OllamaLanguageModelProvider_data_def settled_resolve stream_errors_def
        reject_def onStream_def)
  then show ?case using snoc tev by (simp add: stream_errors_def)
qed

text \<open>
  Claim C8, as the code has it.  Once a \<open>data\<close> event of
  \<open>OllamaLanguageModelProvider.chat\<close> has found the token cancelled, the promise is
  settled for good, whatever events follow, an error of the stream included: unless it
  was settled before, it is resolved, with the same empty result as on completion, and
  never rejected.  If every later event is met with the token cancelled, the buffer is
  not changed and no record reaches the sink: the sink is given the texts of the \<open>error\<close>
  listener for the later \<open>error\<close> events and nothing else, so nothing at all when no
  \<open>error\<close> event follows.  The loop of \<open>VSCodeLanguageModelProvider.chat\<close> stops at the
  first fragment it meets with the token cancelled.
\<close>

theorem cancellation_observed:
  "promise (OllamaLanguageModelProvider_chat parse (pre @ (True, Data chunk) # post))
      = (case promise (OllamaLanguageModelProvider_chat parse pre) of
           None \<Rightarrow> Some (Resolved ()) | Some x \<Rightarrow> Some x)
   \<and> ((\<forall>tev \<in> set post. fst tev) \<longrightarrow>
         sink (OllamaLanguageModelProvider_chat parse (pre @ (True, Data chunk) # post))
           = sink (OllamaLanguageModelProvider_chat parse pre) @ stream_errors post
       \<and> buffer (OllamaLanguageModelProvider_chat parse (pre @ (True, Data chunk) # post))
           = buffer (OllamaLanguageModelProvider_chat parse pre))
   \<and> ((\<forall>tev \<in> set post. fst tev \<and> (\<forall>e. snd tev \<noteq> Error e)) \<longrightarrow>
         sink (OllamaLanguageModelProvider_chat parse (pre @ (True, Data chunk) # post))
           = sink (OllamaLanguageModelProvider_chat parse pre))
   \<and> VSCodeLanguageModelProvider_stream (steps @ Yield True fragment # rest) out
       = VSCodeLanguageModelProvider_stream steps out"
proof (intro conjI impI)
  let ?st = "OllamaLanguageModelProvider_chat parse pre"
  have split: "OllamaLanguageModelProvider_chat parse (pre @ (True, Data chunk) # post)
                 = foldl (OllamaLanguageModelProvider_on parse) (resolve () ?st) post"
    by (simp add: OllamaLanguageModelProvider_chat_def OllamaLanguageModelProvider_data_def)
  obtain x where x: "promise (resolve () ?st) = Some x"
    by (cases "promise ?st") (simp_all add: resolve_def)
  have r: "sink (resolve () ?st) = sink ?st" "buffer (resolve () ?st) = buffer ?st"
    by (simp_all add: resolve_def split: option.splits)
  show "promise (OllamaLanguageModelProvider_chat parse (pre @ (True, Data chunk) # post))
      = (case promise ?st of None \<Rightarrow> Some (Resolved ()) | Some x \<Rightarrow> Some x)"
    unfolding split using settled_for_good [OF x, of parse post] x
    by (cases "promise ?st") (simp_all add: resolve_def)
  show "VSCodeLanguageModelProvider_stream (steps @ Yield True fragment # rest) out
       = VSCodeLanguageModelProvider_stream steps out"
    by (rule VSCode_break)
  {
    assume h: "\<forall>tev \<in> set post. fst tev"
    from cancelled_post [OF x h, of parse]
    show "sink (OllamaLanguageModelProvider_chat parse (pre @ (True, Data chunk) # post))
           = sink ?st @ stream_errors post"
      and "buffer (OllamaLanguageModelProvider_chat parse (pre @ (True, Data chunk) # post))
           = buffer ?st"
      unfolding split by (simp_all add: r)
  }
  {
    assume h: "\<forall>tev \<in> set post. fst tev \<and> (\<forall>e. snd tev \<noteq> Error e)"
    then have "\<forall>tev \<in> set post. fst tev" by simp
    from cancelled_post [OF x this, of parse]
    have "sink (OllamaLanguageModelProvider_chat parse (pre @ (True, Data chunk) # post))
           = sink ?st @ stream_errors post"
      unfolding split by (simp add: r)
    moreover have "stream_errors post = []"
      using h by (induction post) (auto simp: stream_errors_def split: event.splits)
    ultimately show "sink (OllamaLanguageModelProvider_chat parse (pre @ (True, Data chunk) # post))
           = sink ?st" by simp
  }
qed

theorem cancellation_observed_witness:
  "promise (OllamaLanguageModelProvider_chat example_parse
           ([(False, Data (Hel @ ''\<newline>''))] @ (True, Data (lo @ ''\<newline>''))
              # [(True, Data (lo @ ''\<newline>'')), (True, Error (ascii ''aborted'')), (True, End)]))
     = Some (Resolved ())
   \<and> sink (OllamaLanguageModelProvider_chat example_parse
           ([(False, Data (Hel @ ''\<newline>''))] @ (True, Data (lo @ ''\<newline>''))
              # [(True, Data (lo @ ''\<newline>'')), (True, Error (ascii ''aborted'')), (True, End)]))
     = [Str (ascii ''Hel''), Str (ascii ''\<newline>\<newline>[Stream error: aborted]'')]
   \<and> buffer (OllamaLanguageModelProvider_chat example_parse
           ([(False, Data (Hel @ ''\<newline>''))] @ (True, Data (lo @ ''\<newline>''))
              # [(True, Data (lo @ ''\<newline>'')), (True, Error (ascii ''aborted'')), (True, End)]))
     = []
   \<and> sink (OllamaLanguageModelProvider_chat example_parse
           ([(False, Data (Hel @ ''\<newline>''))] @ (True, Data (lo @ ''\<newline>''))
              # [(True, Data (lo @ ''\<newline>'')), (True, End)]))
     = [Str (ascii ''Hel'')]
   \<and> VSCodeLanguageModelProvider_stream
         ([Yield False (ascii ''Hel'')] @ Yield True (ascii ''lo'') # [Yield True (ascii ''!'')]) []
     = [Str (ascii ''Hel'')]"
proof -
  have g: "\<forall>tev \<in> set [(True, Data (lo @ ''\<newline>'')), (True, Error (ascii ''aborted'')), (True, End)].
             fst tev"
    by simp
  have h: "\<forall>tev \<in> set [(True, Data (lo @ ''\<newline>'')), (True, End)].
             fst tev \<and> (\<forall>e. snd tev \<noteq> Error e)"
    by simp
  have e: "stream_errors [(True, Data (lo @ ''\<newline>'')), (True, Error (ascii ''aborted'')), (True, End)]
             = [Str (ascii ''\<newline>\<newline>[Stream error: aborted]'')]"
    by (simp add: stream_errors_def ascii_def)
  have s: "sink (OllamaLanguageModelProvider_chat example_parse [(False, Data (Hel @ ''\<newline>''))])
             = [Str (ascii ''Hel'')]"
    by code_simp
  have b: "buffer (OllamaLanguageModelProvider_chat example_parse [(False, Data (Hel @ ''\<newline>''))])
             = []"
    by code_simp
  have p: "promise (OllamaLanguageModelProvider_chat example_parse [(False, Data (Hel @ ''\<newline>''))])
             = None"
    by code_simp
  have v: "VSCodeLanguageModelProvider_stream [Yield False (ascii ''Hel'')] []
             = [Str (ascii ''Hel'')]"
    by simp
  note a = cancellation_observed [of example_parse "[(False, Data (Hel @ ''\<newline>''))]"
        "lo @ ''\<newline>''" "[(True, Data (lo @ ''\<newline>'')), (True, Error (ascii ''aborted'')), (True, End)]"
        "[Yield False (ascii ''Hel'')]" "ascii ''lo''" "[Yield True (ascii ''!'')]" "[]"]
  note c = cancellation_observed [of example_parse "[(False, Data (Hel @ ''\<newline>''))]"
        "lo @ ''\<newline>''" "[(True, Data (lo @ ''\<newline>'')), (True, End)]"
        "[Yield False (ascii ''Hel'')]" "ascii ''lo''" "[Yield True (ascii ''!'')]" "[]"]
  have 1: "promise (OllamaLanguageModelProvider_chat example_parse
           ([(False, Data (Hel @ ''\<newline>''))] @ (True, Data (lo @ ''\<newline>''))
              # [(True, Data (lo @ ''\<newline>'')), (True, Error (ascii ''aborted'')), (True, End)]))
     = Some (Resolved ())"
    using a p by simp
  have 2: "sink (OllamaLanguageModelProvider_chat example_parse
           ([(False, Data (Hel @ ''\<newline>''))] @ (True, Data (lo @ ''\<newline>''))
              # [(True, Data (lo @ ''\<newline>'')), (True, Error (ascii ''aborted'')), (True, End)]))
     = [Str (ascii ''Hel''), Str (ascii ''\<newline>\<newline>[Stream error: aborted]'')]"
    and 3: "buffer (OllamaLanguageModelProvider_chat example_parse
           ([(False, Data (Hel @ ''\<newline>''))] @ (True, Data (lo @ ''\<newline>''))
              # [(True, Data (lo @ ''\<newline>'')), (True, Error (ascii ''aborted'')), (True, End)]))
     = []"
    using a g e s b by simp_all
  have 4: "sink (OllamaLanguageModelProvider_chat example_parse
           ([(False, Data (Hel @ ''\<newline>''))] @ (True, Data (lo @ ''\<newline>''))
              # [(True, Data (lo @ ''\<newline>'')), (True, End)]))
     = [Str (ascii ''Hel'')]"
    using c h s by (simp add: stream_errors_def)
  have 5: "VSCodeLanguageModelProvider_stream
         ([Yield False (ascii ''Hel'')] @ Yield True (ascii ''lo'') # [Yield True (ascii ''!'')]) []
     = [Str (ascii ''Hel'')]"
    using c v by simp
  show ?thesis using 1 2 3 4 5 by blast
qed

text \<open>
  Claim C8, as stated, fails: a request whose first \<open>data\<close> event finds the token
  cancelled ends with the very outcome of a request that completed, so there is no
  outcome that means cancelled; and an \<open>error\<close> event after that still passes a text to
  the sink.
\<close>

theorem cancellation_counterexample:
  "promise (OllamaLanguageModelProvider_chat example_parse [(True, Data (Hel @ ''\<newline>''))])
     = promise (OllamaLanguageModelProvider_chat example_parse [(False, End)])
   \<and> sink (OllamaLanguageModelProvider_chat example_parse
             [(True, Data (Hel @ ''\<newline>'')), (True, Error (ascii ''aborted''))])
     = [Str (ascii ''\<newline>\<newline>[Stream error: aborted]'')]"
  by (simp add: OllamaLanguageModelProvider_chat_def OllamaLanguageModelProvider_data_def
      start_def ascii_def)


subsection \<open>The two shapes of a record\<close>

text \<open>
  The block of the second copy and of the provider passes on the content of a record of
  either shape, once, when the content is a string that is not empty.
\<close>

lemma get_opt_truthy: "get_opt x p \<noteq> Undefined \<Longrightarrow> truthy x"
  using falsy_get_opt by blast

lemma dual_shapes:
  assumes "parse j = Some data" and "get data P_choices = Some cs" and "c \<noteq> []"
    and "get_opt (get_opt (get_opt cs P_0) P_delta) P_content = Str c
         \<or> \<not> truthy (get_opt (get_opt (get_opt cs P_0) P_delta) P_content)
           \<and> get_opt (get_opt (get_opt cs P_0) P_message) P_content = Str c"
  shows "\<exists>b st'. try_choice ret parse j st = Some (b, st')
           \<and> sink st' = sink st @ [Str c] \<and> fullResponse st' = fullResponse st @ c"
proof -
  let ?choice = "get_opt cs P_0"
  have "get_opt ?choice P_delta \<noteq> Undefined \<or> get_opt ?choice P_message \<noteq> Undefined"
    using assms(4) get_opt_truthy [of "get_opt ?choice P_delta" P_content]
      get_opt_truthy [of "get_opt ?choice P_message" P_content] by auto
  then have choice: "truthy ?choice" using get_opt_truthy by blast
  then have "get_opt cs P_0 \<noteq> Undefined" by (cases "get_opt cs P_0") simp_all
  then have cs: "truthy cs" by (rule get_opt_truthy)
  have c: "content_of ?choice = Str c"
    using assms(3,4) get_opt_truthy [of "get_opt ?choice P_delta" P_content]
      get_opt_truthy [of "get_opt ?choice P_message" P_content]
    by (auto simp: content_of_def)
  show ?thesis
    using assms(1,2,3) choice cs c by (auto simp: try_choice_def emit_def)
qed

text \<open>
  Claim C3.  The copy in \<open>src/ollamaService.ts\<close> reads \<open>delta.content\<close> only: a record of
  the full-message form gives the sink nothing, in the loop and in a whole request,
  while the second copy passes its content on.
\<close>

theorem message_content_ignored:
  "sink (for_lines fullResponse (try_delta example_parse) [ascii Hi] start) = []
   \<and> sink (OllamaService_chat example_parse [Data (Hi @ [CHR 0x5C, CHR ''n'']), End]) = []
   \<and> sink (OllamaService_v2_chat example_parse [Data (Hi @ ''\<newline>''), End]) = [Str (ascii ''Hi'')]"
  by code_simp

subsection \<open>The sentinel and the finish reason\<close>

text \<open>
  Inside one chunk the loop does stop: at the sentinel it resolves and leaves the lines
  that follow unread, and so it does after a record whose finish reason is \<open>stop\<close>, once
  the content of that record has been passed on.
\<close>

lemma sentinel_ends_chunk:
  assumes "jsonStr_of (trim line) = ascii ''[DONE]''"
  shows "for_lines ret body (line # rest) st = resolve (ret st) st"
proof -
  have "trim line \<noteq> []" using assms by (auto simp: jsonStr_of_def startsWith_def ascii_def)
  then show ?thesis using assms by simp
qed

lemma stop_ends_chunk:
  assumes "trim line \<noteq> []" and "jsonStr_of (trim line) \<noteq> ascii ''[DONE]''"
    and "parse (jsonStr_of (trim line)) = Some data" and "get data P_choices = Some cs"
    and "truthy cs" and "truthy (get_opt cs P_0)"
    and "get_opt (get_opt cs P_0) P_finish_reason = Str (ascii ''stop'')"
    and "content_of (get_opt cs P_0) = Str c"
  shows "for_lines ret (try_choice ret parse) (line # rest) st
           = (if c = [] then resolve (ret st) st
              else resolve (ret (onStream (Str c) (st\<lparr>fullResponse := fullResponse st @ c\<rparr>)))
                     (onStream (Str c) (st\<lparr>fullResponse := fullResponse st @ c\<rparr>)))"
  using assms by (simp add: try_choice_def emit_def)

text \<open>
  Claim C4.  After the sentinel the promise is resolved, but the \<open>data\<close> listener stays
  registered and nothing records that the request is over: a record that arrives in a
  later chunk is parsed and passed to the sink, in all three copies.
\<close>

theorem emission_after_sentinel:
  "OllamaLanguageModelProvider_chat example_parse
       [(False, Data (DONE @ ''\<newline>'')), (False, Data (Hel @ ''\<newline>''))]
     = \<lparr>buffer = [], fullResponse = ascii ''Hel'', sink = [Str (ascii ''Hel'')],
        promise = Some (Resolved ())\<rparr>
   \<and> OllamaService_v2_chat example_parse [Data (DONE @ ''\<newline>''), Data (Hel @ ''\<newline>'')]
     = \<lparr>buffer = [], fullResponse = ascii ''Hel'', sink = [Str (ascii ''Hel'')],
        promise = Some (Resolved [])\<rparr>
   \<and> OllamaService_chat example_parse
       [Data (DONE @ [CHR 0x5C, CHR ''n'']), Data (Hel @ [CHR 0x5C, CHR ''n''])]
     = \<lparr>buffer = [], fullResponse = ascii ''Hel'', sink = [Str (ascii ''Hel'')],
        promise = Some (Resolved [])\<rparr>"
  by code_simp

text \<open>
  Claim C6.  The same holds after a record with the finish reason \<open>stop\<close>: the record of
  a later chunk still reaches the sink.  The copy in \<open>src/ollamaService.ts\<close> does not read
  \<open>finish_reason\<close> at all: its loop goes on to the next line of the same chunk and leaves
  the promise pending.
\<close>

theorem records_after_stop:
  "OllamaLanguageModelProvider_chat example_parse
       [(False, Data (lo_stop @ ''\<newline>'')), (False, Data (Hel @ ''\<newline>''))]
     = \<lparr>buffer = [], fullResponse = ascii ''loHel'', sink = [Str (ascii ''lo''), Str (ascii ''Hel'')],
        promise = Some (Resolved ())\<rparr>
   \<and> OllamaService_v2_chat example_parse
       [Data (lo_stop @ ''\<newline>''), Data (Hel @ ''\<newline>'')]
     = \<lparr>buffer = [], fullResponse = ascii ''loHel'', sink = [Str (ascii ''lo''), Str (ascii ''Hel'')],
        promise = Some (Resolved (ascii ''lo''))\<rparr>
   \<and> for_lines fullResponse (try_delta example_parse) [ascii lo_stop, ascii Hel] start
     = \<lparr>buffer = [], fullResponse = ascii ''loHel'', sink = [Str (ascii ''lo''), Str (ascii ''Hel'')],
        promise = None\<rparr>"
  by code_simp

subsection \<open>Fragmentation\<close>

text \<open>
  What the two copies that split at the line feed do achieve: the state after a sequence
  of chunks depends only on the concatenation of the decoded texts, as long as no line
  but the last complete one stops the loop.  For a body of ASCII bytes the decoded texts
  add up to the text of the body however it is cut, so on the body of the claim every
  fragmentation gives \<open>Hel\<close>, then \<open>lo\<close>, and the full text \<open>Hello\<close>.
\<close>

lemma resolve_buffer: "resolve v (st\<lparr>buffer := x\<rparr>) = (resolve v st)\<lparr>buffer := x\<rparr>"
  by (simp add: resolve_def split: option.splits)

lemma emit_buffer: "emit c (st\<lparr>buffer := x\<rparr>) = map_option (\<lambda>s. s\<lparr>buffer := x\<rparr>) (emit c st)"
  by (simp add: emit_def onStream_def split: option.splits)

lemma emit_None: "emit c st = None \<longleftrightarrow> ToString c = None"
  by (simp add: emit_def split: option.splits)

lemma blind_try_choice:
  assumes "\<And>st x. ret (st\<lparr>buffer := x\<rparr>) = ret st"
  shows "blind ret (try_choice ret parse)"
  unfolding blind_def
proof (intro conjI allI)
  fix j x and st :: "'a chat"
  show "try_choice ret parse j (st\<lparr>buffer := x\<rparr>)
          = map_option (\<lambda>(b, s). (b, s\<lparr>buffer := x\<rparr>)) (try_choice ret parse j st)"
    by (simp add: try_choice_def emit_buffer resolve_buffer assms split: option.splits)
next
  fix x and st :: "'a chat"
  show "ret (st\<lparr>buffer := x\<rparr>) = ret st" by (rule assms)
next
  fix j and st st' :: "'a chat"
  show "returns (try_choice ret parse j st) = returns (try_choice ret parse j st')"
    by (cases "ToString (content_of (get_opt (the (get (the (parse j)) P_choices)) P_0))")
      (auto simp: returns_def try_choice_def emit_def split: option.splits)
qed

lemma for_lines_buffer:
  assumes "blind ret body"
  shows "for_lines ret body ls (st\<lparr>buffer := x\<rparr>) = (for_lines ret body ls st)\<lparr>buffer := x\<rparr>"
proof (induction ls arbitrary: st)
  case Nil
  show ?case by simp
next
  case (Cons l ls)
  have b: "body j (st\<lparr>buffer := x\<rparr>) = map_option (\<lambda>(b, s). (b, s\<lparr>buffer := x\<rparr>)) (body j st)" for j
    using assms by (simp add: blind_def)
  have r: "ret (st\<lparr>buffer := x\<rparr>) = ret st" using assms by (simp add: blind_def)
  show ?case
    by (cases "body (jsonStr_of (trim l)) st")
      (auto simp: b r Cons resolve_buffer split: bool.splits)
qed

lemma for_lines_append:
  assumes "blind ret body" and "\<forall>l \<in> set xs. \<not> stops body l"
  shows "for_lines ret body (xs @ ys) st = for_lines ret body ys (for_lines ret body xs st)"
  using assms(2)
proof (induction xs arbitrary: st)
  case Nil
  show ?case by simp
next
  case (Cons l xs)
  have s: "\<not> stops body l" using Cons.prems by simp
  have "returns (body (jsonStr_of (trim l)) st) = returns (body (jsonStr_of (trim l)) start)"
    using assms(1) unfolding blind_def by blast
  then have nr: "trim l \<noteq> [] \<Longrightarrow> \<not> returns (body (jsonStr_of (trim l)) st)"
    and nd: "trim l \<noteq> [] \<Longrightarrow> jsonStr_of (trim l) \<noteq> ascii ''[DONE]''"
    using s by (auto simp: stops_def returns_def split: option.splits bool.splits)
  show ?case
  proof (cases "trim l = []")
    case True
    then show ?thesis using Cons by simp
  next
    case False
    show ?thesis
    proof (cases "body (jsonStr_of (trim l)) st")
      case None
      then show ?thesis using Cons False nd by simp
    next
      case (Some p)
      obtain b st' where p: "p = (b, st')" by (cases p)
      have "\<not> b" using nr [OF False] Some p by (cases b) (simp_all add: returns_def)
      then show ?thesis using Cons False nd Some p by simp
    qed
  qed
qed


lemma lines_unique:
  assumes "concat (map (\<lambda>l. l @ [n]) a) @ r = concat (map (\<lambda>l. l @ [n]) b) @ r'"
    and "\<forall>l \<in> set a. n \<notin> set l" "n \<notin> set r" "\<forall>l \<in> set b. n \<notin> set l" "n \<notin> set r'"
  shows "a = b \<and> r = r'"
proof -
  have "a @ [r] = split_from [n] [] (concat (map (\<lambda>l. l @ [n]) a) @ r)"
    using split_from_lines [of a n r] assms(2,3) by simp
  also have "\<dots> = split_from [n] [] (concat (map (\<lambda>l. l @ [n]) b) @ r')"
    by (simp only: assms(1))
  also have "\<dots> = b @ [r']"
    using split_from_lines [of b n r'] assms(4,5) by simp
  finally show ?thesis by simp
qed

lemma for_lines_keeps_buffer:
  "step_ok ret body \<Longrightarrow> buffer (for_lines ret body ls st) = buffer st"
  by (rule for_lines_rule [where P = "\<lambda>s. buffer s = buffer st"]) auto

lemma fragments_fold:
  assumes bl: "blind ret body" and ok: "step_ok ret body"
  shows "0xA \<notin> set (buffer st) \<Longrightarrow>
         buffer st @ concat (map Buffer_toString fs) = concat (map (\<lambda>l. l @ LF) ls) @ r \<Longrightarrow>
         \<forall>l \<in> set ls. 0xA \<notin> set l \<Longrightarrow> 0xA \<notin> set r \<Longrightarrow>
         \<forall>l \<in> set (butlast ls). \<not> stops body l \<Longrightarrow>
         foldl (\<lambda>st f. on_data LF ret body f st) st fs = for_lines ret body ls (st\<lparr>buffer := r\<rparr>)"
proof (induction fs arbitrary: st ls)
  case Nil
  have "concat (map (\<lambda>l. l @ [0xA]) []) @ buffer st = concat (map (\<lambda>l. l @ [0xA]) ls) @ r"
    using Nil.prems(2) by (simp add: LF_def)
  then have "[] = ls \<and> buffer st = r"
    by (rule lines_unique) (use Nil.prems in auto)
  then show ?case by auto
next
  case (Cons f fs)
  obtain ls1 r1 where 1: "buffer st @ Buffer_toString f = concat (map (\<lambda>l. l @ [0xA]) ls1) @ r1"
    "\<forall>l \<in> set ls1. 0xA \<notin> set l" "0xA \<notin> set r1"
    using lines_exist [of "buffer st @ Buffer_toString f" "0xA"] by blast
  obtain ls2 r2 where 2: "r1 @ concat (map Buffer_toString fs) = concat (map (\<lambda>l. l @ [0xA]) ls2) @ r2"
    "\<forall>l \<in> set ls2. 0xA \<notin> set l" "0xA \<notin> set r2"
    using lines_exist [of "r1 @ concat (map Buffer_toString fs)" "0xA"] by blast
  have "concat (map (\<lambda>l. l @ [0xA]) (ls1 @ ls2)) @ r2 = concat (map (\<lambda>l. l @ [0xA]) ls) @ r"
  proof -
    have "concat (map (\<lambda>l. l @ [0xA]) (ls1 @ ls2)) @ r2
            = concat (map (\<lambda>l. l @ [0xA]) ls1) @ (r1 @ concat (map Buffer_toString fs))"
      using 2(1) by simp
    also have "\<dots> = buffer st @ Buffer_toString f @ concat (map Buffer_toString fs)"
      using 1(1) by (metis append.assoc)
    also have "\<dots> = concat (map (\<lambda>l. l @ [0xA]) ls) @ r"
      using Cons.prems(2) by (simp add: LF_def)
    finally show ?thesis .
  qed
  then have "ls1 @ ls2 = ls \<and> r2 = r"
    by (rule lines_unique) (use 1 2 Cons.prems in auto)
  then have ls: "ls = ls1 @ ls2" and r: "r = r2" by auto
  let ?st1 = "for_lines ret body ls1 (st\<lparr>buffer := r1\<rparr>)"
  have step: "on_data LF ret body f st = ?st1"
    by (rule on_data_LF) (use 1 in \<open>auto simp: LF_def\<close>)
  have b1: "buffer ?st1 = r1" by (simp add: for_lines_keeps_buffer [OF ok])
  have nostop: "\<forall>l \<in> set (butlast ls2). \<not> stops body l"
    using Cons.prems(5) ls by (cases "ls2 = []") (auto simp: butlast_append)
  have "foldl (\<lambda>st f. on_data LF ret body f st) ?st1 fs = for_lines ret body ls2 (?st1\<lparr>buffer := r\<rparr>)"
    by (rule Cons.IH) (use b1 1 2 r nostop in \<open>auto simp: LF_def\<close>)
  also have "?st1\<lparr>buffer := r\<rparr> = for_lines ret body ls1 (st\<lparr>buffer := r\<rparr>)"
    by (simp add: for_lines_buffer [OF bl])
  also have "for_lines ret body ls2 (for_lines ret body ls1 (st\<lparr>buffer := r\<rparr>))
               = for_lines ret body ls (st\<lparr>buffer := r\<rparr>)"
  proof (cases "ls2 = []")
    case True
    then show ?thesis using ls by simp
  next
    case False
    then have "\<forall>l \<in> set ls1. \<not> stops body l"
      using Cons.prems(5) ls by (auto simp: butlast_append)
    then show ?thesis using for_lines_append [OF bl] ls by simp
  qed
  finally show ?case using step by simp
qed

lemma Buffer_toString_ascii:
  "\<forall>b \<in> set bs. (of_char b :: nat) < 0x80 \<Longrightarrow> Buffer_toString bs = ascii bs"
  by (induction bs) (simp_all add: ascii_def)

lemma fragments_ascii:
  "\<forall>b \<in> set (concat fs). (of_char b :: nat) < 0x80 \<Longrightarrow>
   concat (map Buffer_toString fs) = ascii (concat fs)"
proof (induction fs)
  case Nil
  show ?case by (simp add: ascii_def)
next
  case (Cons f fs)
  then show ?case by (simp add: Buffer_toString_ascii) (simp add: ascii_def)
qed

lemma fragments_same_text:
  assumes "blind ret body" and "step_ok ret body"
    and "concat (map Buffer_toString fs) = concat (map Buffer_toString gs)"
    and "concat (map Buffer_toString fs) = concat (map (\<lambda>l. l @ LF) ls) @ r"
    and "\<forall>l \<in> set ls. 0xA \<notin> set l" and "0xA \<notin> set r"
    and "\<forall>l \<in> set (butlast ls). \<not> stops body l"
  shows "foldl (\<lambda>st f. on_data LF ret body f st) start fs
           = foldl (\<lambda>st f. on_data LF ret body f st) start gs"
proof -
  have "foldl (\<lambda>st f. on_data LF ret body f st) start hs = for_lines ret body ls (start\<lparr>buffer := r\<rparr>)"
    if "concat (map Buffer_toString hs) = concat (map Buffer_toString fs)" for hs
    by (rule fragments_fold [OF assms(1,2)]) (use assms(4-7) that in \<open>simp_all add: start_def\<close>)
  from this [of fs] this [of gs] assms(3) show ?thesis by simp
qed

lemma blind_fullResponse: "blind fullResponse (try_choice fullResponse parse)"
  by (rule blind_try_choice) simp

lemma blind_unit: "blind (\<lambda>_. ()) (try_choice (\<lambda>_. ()) parse)"
  by (rule blind_try_choice) simp

lemma v2_chat_fragments:
  "OllamaService_v2_chat parse (map Data fs)
     = foldl (\<lambda>st f. on_data LF fullResponse (try_choice fullResponse parse) f st) start fs"
  by (simp add: OllamaService_v2_chat_def foldl_map OllamaService_v2_data_def)

lemma provider_chat_fragments:
  "OllamaLanguageModelProvider_chat parse (map (\<lambda>f. (False, Data f)) fs)
     = foldl (\<lambda>st f. on_data LF (\<lambda>_. ()) (try_choice (\<lambda>_. ()) parse) f st) start fs"
  by (simp add: OllamaLanguageModelProvider_chat_def foldl_map OllamaLanguageModelProvider_data_def)

lemma example_lines:
  "ascii (sse [Hel, lo, DONE]) = concat (map (\<lambda>l. l @ LF) [ascii Hel, ascii lo, ascii DONE]) @ []"
  by (simp add: sse_def ascii_def LF_def)

lemma example_ascii: "\<forall>b \<in> set (sse [Hel, lo, DONE]). (of_char b :: nat) < 0x80"
  by (simp add: sse_def Hel_def lo_def DONE_def)

lemma example_no_LF: "\<forall>l \<in> set [ascii Hel, ascii lo, ascii DONE]. 0xA \<notin> set l"
  by (simp add: Hel_def lo_def DONE_def ascii_def)

lemma example_body_any_fragments:
  assumes "concat fs = sse [Hel, lo, DONE]"
  shows "OllamaService_v2_chat example_parse (map Data fs @ [End])
           = \<lparr>buffer = [], fullResponse = ascii ''Hello'',
              sink = [Str (ascii ''Hel''), Str (ascii ''lo'')],
              promise = Some (Resolved (ascii ''Hello''))\<rparr>"
    and "OllamaLanguageModelProvider_chat example_parse (map (\<lambda>f. (False, Data f)) fs @ [(False, End)])
           = \<lparr>buffer = [], fullResponse = ascii ''Hello'',
              sink = [Str (ascii ''Hel''), Str (ascii ''lo'')],
              promise = Some (Resolved ())\<rparr>"
proof -
  have decomp: "buffer (start :: 'a chat) @ concat (map Buffer_toString fs)
          = concat (map (\<lambda>l. l @ LF) [ascii Hel, ascii lo, ascii DONE]) @ []"
    using fragments_ascii [of fs] example_ascii assms example_lines by (simp add: start_def)
  have s1: "\<forall>l \<in> set (butlast [ascii Hel, ascii lo, ascii DONE]).
              \<not> stops (try_choice fullResponse example_parse) l"
    by code_simp
  have s2: "\<forall>l \<in> set (butlast [ascii Hel, ascii lo, ascii DONE]).
              \<not> stops (try_choice (\<lambda>_. ()) example_parse) l"
    by code_simp
  have "OllamaService_v2_chat example_parse (map Data fs)
          = for_lines fullResponse (try_choice fullResponse example_parse)
              [ascii Hel, ascii lo, ascii DONE] (start\<lparr>buffer := []\<rparr>)"
    unfolding v2_chat_fragments
    by (rule fragments_fold [OF blind_fullResponse step_ok_try_choice _ decomp example_no_LF _ s1])
      (simp_all add: start_def)
  also have "\<dots> = \<lparr>buffer = [], fullResponse = ascii ''Hello'',
              sink = [Str (ascii ''Hel''), Str (ascii ''lo'')],
              promise = Some (Resolved (ascii ''Hello''))\<rparr>"
    by code_simp
  finally show "OllamaService_v2_chat example_parse (map Data fs @ [End])
           = \<lparr>buffer = [], fullResponse = ascii ''Hello'',
              sink = [Str (ascii ''Hel''), Str (ascii ''lo'')],
              promise = Some (Resolved (ascii ''Hello''))\<rparr>"
    by (simp add: OllamaService_v2_chat_def)
  have "OllamaLanguageModelProvider_chat example_parse (map (\<lambda>f. (False, Data f)) fs)
          = for_lines (\<lambda>_. ()) (try_choice (\<lambda>_. ()) example_parse)
              [ascii Hel, ascii lo, ascii DONE] (start\<lparr>buffer := []\<rparr>)"
    unfolding provider_chat_fragments
    by (rule fragments_fold [OF blind_unit step_ok_try_choice _ decomp example_no_LF _ s2])
      (simp_all add: start_def)
  also have "\<dots> = \<lparr>buffer = [], fullResponse = ascii ''Hello'',
              sink = [Str (ascii ''Hel''), Str (ascii ''lo'')],
              promise = Some (Resolved ())\<rparr>"
    by code_simp
  finally show "OllamaLanguageModelProvider_chat example_parse (map (\<lambda>f. (False, Data f)) fs @ [(False, End)])
           = \<lparr>buffer = [], fullResponse = ascii ''Hello'',
              sink = [Str (ascii ''Hel''), Str (ascii ''lo'')],
              promise = Some (Resolved ())\<rparr>"
    by (simp add: OllamaLanguageModelProvider_chat_def)
qed

text \<open>
  Claim C1.  On the body of the claim, \<open>OllamaService.chat\<close> of \<open>src/ollamaService.ts\<close>
  passes nothing to the sink and resolves with the empty string, because it never
  splits at a line feed.  And no copy keeps the bytes of a character together: each
  chunk is decoded on its own, so the two bytes of \<open>U+00E9\<close> in two chunks leave two
  \<open>U+FFFD\<close> in the buffer of the provider, and in one chunk the character.
\<close>

theorem example_body_not_decoded:
  "sink (OllamaService_chat parse [Data (sse [Hel, lo, DONE]), End]) = []
   \<and> promise (OllamaService_chat parse [Data (sse [Hel, lo, DONE]), End]) = Some (Resolved [])
   \<and> buffer (OllamaLanguageModelProvider_chat parse
               [(False, Data [CHR 0x22, CHR 0xC3]), (False, Data [CHR 0xA9, CHR 0x22])])
       = [0x22, 0xFFFD, 0xFFFD, 0x22]
   \<and> buffer (OllamaLanguageModelProvider_chat parse
               [(False, Data [CHR 0x22, CHR 0xC3, CHR 0xA9, CHR 0x22])])
       = [0x22, 0xE9, 0x22]"
  by (simp add: OllamaService_chat_def OllamaService_data_def OllamaLanguageModelProvider_chat_def
      OllamaLanguageModelProvider_data_def on_data_def split_def backslash_n_def LF_def pop_def
      start_def sse_def Hel_def lo_def DONE_def continuation_def codeUnits_def bits_def)

end
